theory Spec2Isabelle
  imports Complex_Main "HOL-Library.Multiset" "HOL-Library.Sublist"
begin

section \<open>SteelBoy: best-fit cutting stock and its reports\<close>

text \<open>
  The embedding follows \<^verbatim>\<open>SteelBoy.py\<close>. Part lengths, quantities and the stock
  length are Python integers (\<^typ>\<open>int\<close>). The kerf, the remaining capacity of a bin
  and the weight figures are Python floats; they are modelled by \<^typ>\<open>real\<close>, that
  is with exact arithmetic: rounding, infinities and NaN are outside the model.
\<close>

subsection \<open>Data model\<close>

text \<open>A part is the tuple \<^verbatim>\<open>(profile, length_val, demand_val, weight_per_m)\<close>.\<close>

type_synonym part = "string \<times> int \<times> int \<times> real"

text \<open>An item is the tuple \<^verbatim>\<open>(profile, length)\<close>.\<close>

type_synonym item = "string \<times> int"

text \<open>A bin is the dictionary \<^verbatim>\<open>{'remaining': ..., 'cuts': [...]}\<close>.\<close>

record bin =
  remaining :: real
  cuts :: "item list"

datatype py_error = IndexError

subsection \<open>The packer\<close>

text \<open>
  \<^verbatim>\<open>for profile, length, demand, _ in parts: items.extend([(profile, length)] * demand)\<close>.
  A list multiplied by a non-positive integer is empty in Python.
\<close>

fun expand_items :: "part list \<Rightarrow> item list" where
  "expand_items [] = []"
| "expand_items ((profile, len, demand, w) # parts) =
     replicate (nat demand) (profile, len) @ expand_items parts"

text \<open>
  \<^verbatim>\<open>items.sort(key=lambda x: x[1], reverse=True)\<close>: Python's sort is stable, also
  with \<^verbatim>\<open>reverse=True\<close>; it is a stable sort by descending length, which is a
  stable ascending sort on the negated length.
\<close>

definition sort_items :: "item list \<Rightarrow> item list" where
  "sort_items items = sort_key (\<lambda>x. - snd x) items"

definition effective_length :: "real \<Rightarrow> item \<Rightarrow> real" where
  "effective_length cut_kerf it = real_of_int (snd it) + cut_kerf"

text \<open>
  The inner loop \<^verbatim>\<open>for bin in bins\<close>. The pair \<^verbatim>\<open>(best_bin, min_remaining)\<close> is the
  accumulator: \<open>None\<close> stands for \<^verbatim>\<open>best_bin = None, min_remaining = inf\<close>, and
  \<open>Some (i, m)\<close> for \<^verbatim>\<open>best_bin\<close> being the bin at position \<open>i\<close> of the list (the
  source holds a reference to that dictionary) with \<^verbatim>\<open>min_remaining = m\<close>.
\<close>

fun find_best_bin :: "real \<Rightarrow> nat \<Rightarrow> (nat \<times> real) option \<Rightarrow> bin list \<Rightarrow> (nat \<times> real) option" where
  "find_best_bin eff i best [] = best"
| "find_best_bin eff i best (b # bs) =
     (if remaining b \<ge> eff then
        (let remaining_after = remaining b - eff in
         if (case best of None \<Rightarrow> True | Some (_, min_remaining) \<Rightarrow> remaining_after < min_remaining)
         then find_best_bin eff (Suc i) (Some (i, remaining_after)) bs
         else find_best_bin eff (Suc i) best bs)
      else find_best_bin eff (Suc i) best bs)"

text \<open>
  The body of the outer loop. \<^verbatim>\<open>if best_bin:\<close> tests a dictionary with two keys, which
  is true whenever \<^verbatim>\<open>best_bin\<close> is not \<^verbatim>\<open>None\<close>. The chosen bin is updated in
  place; its position \<open>i\<close> is always within the list (lemma \<open>find_best_bin_index\<close>).
\<close>

definition place_item :: "int \<Rightarrow> real \<Rightarrow> bin list \<Rightarrow> item \<Rightarrow> bin list" where
  "place_item stock_length cut_kerf bins it =
     (let eff = effective_length cut_kerf it in
      case find_best_bin eff 0 None bins of
        Some (i, _) \<Rightarrow>
          bins[i := (bins ! i)\<lparr>remaining := remaining (bins ! i) - eff,
                               cuts := cuts (bins ! i) @ [it]\<rparr>]
      | None \<Rightarrow>
          bins @ [\<lparr>remaining = real_of_int stock_length - eff, cuts = [it]\<rparr>])"

text \<open>The outer loop \<^verbatim>\<open>for profile, length in items\<close>, started with \<^verbatim>\<open>bins = []\<close>.\<close>

definition pack_items :: "int \<Rightarrow> real \<Rightarrow> bin list \<Rightarrow> item list \<Rightarrow> bin list" where
  "pack_items stock_length cut_kerf bins items = foldl (place_item stock_length cut_kerf) bins items"

definition best_fit_cutting_stock :: "part list \<Rightarrow> int \<Rightarrow> real \<Rightarrow> bin list" where
  "best_fit_cutting_stock parts stock_length cut_kerf =
     pack_items stock_length cut_kerf [] (sort_items (expand_items parts))"

subsection \<open>Decimal rendering of integers\<close>

text \<open>What an f-string prints for a Python integer.\<close>

function str_nat :: "nat \<Rightarrow> string" where
  "str_nat n = (if n < 10 then [''0123456789'' ! n]
                else str_nat (n div 10) @ [''0123456789'' ! (n mod 10)])"
  by pat_completeness auto
termination
  by (relation "measure id") auto

declare str_nat.simps [simp del]

definition str_int :: "int \<Rightarrow> string" where
  "str_int i = (if i < 0 then CHR ''-'' # str_nat (nat (- i)) else str_nat (nat i))"

text \<open>\<^verbatim>\<open>sep.join(strings)\<close>.\<close>

fun join :: "string \<Rightarrow> string list \<Rightarrow> string" where
  "join sep [] = []"
| "join sep [x] = x"
| "join sep (x # y # ys) = x @ sep @ join sep (y # ys)"

subsection \<open>The pattern details table\<close>

text \<open>A row is \<^verbatim>\<open>[pattern_name, pattern_length, cut_details, remaining_waste]\<close>.\<close>

record pattern_row =
  pattern_name :: string
  pattern_length :: real
  cut_details :: string
  remaining_waste :: real

text \<open>\<^verbatim>\<open>f"1x {profile}({length}mm)"\<close>.\<close>

fun cut_entry :: "item \<Rightarrow> string" where
  "cut_entry (profile, len) = ''1x '' @ profile @ ''('' @ str_int len @ ''mm)''"

definition details_headers :: "string list" where
  "details_headers =
     [''Pattern Name'', ''Pattern Length (mm)'', ''Cut Details'', ''Remaining Waste (mm)'']"

text \<open>
  The body of \<^verbatim>\<open>for i, bin in enumerate(bins, 1)\<close>. The source also sums the lengths
  of the cuts into \<^verbatim>\<open>total_length\<close>, which it never uses.
\<close>

definition pattern_row_of :: "int \<Rightarrow> nat \<Rightarrow> bin \<Rightarrow> pattern_row" where
  "pattern_row_of stock_length i b =
     \<lparr>pattern_name = ''Pattern '' @ str_nat i,
      pattern_length = real_of_int stock_length - remaining b,
      cut_details = join '' + '' (map cut_entry (cuts b)),
      remaining_waste = remaining b\<rparr>"

definition generate_pattern_details_table :: "bin list \<Rightarrow> int \<Rightarrow> pattern_row list \<times> string list" where
  "generate_pattern_details_table bins stock_length =
     (map (\<lambda>(i, b). pattern_row_of stock_length i b) (enumerate 1 bins), details_headers)"

text \<open>
  The cut details as the specification words them: consecutive identical
  (profile, length) entries of a bin are counted and shown as one entry,
  \<^verbatim>\<open>2x Profile(3000mm)\<close> for two of them.
\<close>

fun group_runs_spec :: "item list \<Rightarrow> (item \<times> nat) list" where
  "group_runs_spec [] = []"
| "group_runs_spec (x # xs) =
     (case group_runs_spec xs of
        [] \<Rightarrow> [(x, 1)]
      | (y, n) # rest \<Rightarrow> if x = y then (y, Suc n) # rest else (x, 1) # (y, n) # rest)"

fun grouped_entry_spec :: "item \<times> nat \<Rightarrow> string" where
  "grouped_entry_spec ((profile, len), n) =
     str_nat n @ ''x '' @ profile @ ''('' @ str_int len @ ''mm)''"

definition grouped_details_spec :: "item list \<Rightarrow> string" where
  "grouped_details_spec cs = join '' + '' (map grouped_entry_spec (group_runs_spec cs))"

subsection \<open>The final report\<close>

text \<open>The one row of the report, in the order of the source's list.\<close>

record aggregate_row =
  row_profile :: string
  total_stocks_used :: int
  row_stock_length :: int
  weight_per_m :: real
  total_stock_consumed_m :: real
  effective_usage_m :: real
  waste_m :: real
  total_order_weight_kg :: real
  effective_weight_kg :: real
  waste_weight_kg :: real

definition final_headers :: "string list" where
  "final_headers =
     [''Profile'', ''Total Stocks Used'', ''Stock Length (mm)'', ''Weight (kgm)'',
      ''Total Usage (m)'', ''Effective Usage (m)'', ''Waste (m)'',
      ''Total Order Weight (kg)'', ''Effective Weight (kg)'', ''Waste Weight (kg)'']"

text \<open>\<^verbatim>\<open>effective_usage_mm = sum(length * demand for _, length, demand, _ in parts)\<close>.\<close>

definition effective_usage_mm :: "part list \<Rightarrow> int" where
  "effective_usage_mm parts = (\<Sum>(profile, len, demand, w)\<leftarrow>parts. len * demand)"

text \<open>\<^verbatim>\<open>total_stock_consumed_mm = len(bins) * stock_length\<close>.\<close>

definition total_stock_consumed_mm :: "bin list \<Rightarrow> int \<Rightarrow> int" where
  "total_stock_consumed_mm bins stock_length = int (length bins) * stock_length"

text \<open>
  \<^verbatim>\<open>waste_mm = total_stock_consumed_mm - effective_usage_mm
               - cut_kerf * sum(demand for _, _, demand, _ in parts)\<close>.
\<close>

definition waste_mm :: "part list \<Rightarrow> bin list \<Rightarrow> int \<Rightarrow> real \<Rightarrow> real" where
  "waste_mm parts bins stock_length cut_kerf =
     real_of_int (total_stock_consumed_mm bins stock_length) - real_of_int (effective_usage_mm parts)
       - cut_kerf * real_of_int (\<Sum>(profile, len, demand, w)\<leftarrow>parts. demand)"

text \<open>
  The sums over \<^verbatim>\<open>parts\<close> are computed first and succeed on the empty list;
  \<^verbatim>\<open>parts[0][3]\<close> then raises \<^verbatim>\<open>IndexError\<close> when \<^verbatim>\<open>parts\<close> is empty.
  \<^verbatim>\<open>profile if profile else parts[0][0]\<close> takes the first part's profile when the
  argument is \<^verbatim>\<open>None\<close> or the empty string.
\<close>

definition generate_final_report ::
  "part list \<Rightarrow> bin list \<Rightarrow> int \<Rightarrow> real \<Rightarrow> string option
     \<Rightarrow> py_error + (aggregate_row list \<times> string list)" where
  "generate_final_report parts bins stock_length cut_kerf profile =
     (let consumed_m = real_of_int (total_stock_consumed_mm bins stock_length) / 1000;
          usage_m = real_of_int (effective_usage_mm parts) / 1000;
          w_m = waste_mm parts bins stock_length cut_kerf / 1000
      in case parts of
           [] \<Rightarrow> Inl IndexError
         | (profile0, len0, demand0, weight) # _ \<Rightarrow>
             Inr ([\<lparr>row_profile = (case profile of
                                      None \<Rightarrow> profile0
                                    | Some pr \<Rightarrow> if pr \<noteq> [] then pr else profile0),
                    total_stocks_used = int (length bins),
                    row_stock_length = stock_length,
                    weight_per_m = weight,
                    total_stock_consumed_m = consumed_m,
                    effective_usage_m = usage_m,
                    waste_m = w_m,
                    total_order_weight_kg = (if weight > 0 then consumed_m * weight else 0),
                    effective_weight_kg = (if weight > 0 then usage_m * weight else 0),
                    waste_weight_kg = (if weight > 0 then w_m * weight else 0)\<rparr>],
                  final_headers))"

subsection \<open>Auxiliary notions for the proofs\<close>

text \<open>All cuts of a bin list, bin after bin.\<close>

definition all_cuts :: "bin list \<Rightarrow> item list" where
  "all_cuts bins = concat (map cuts bins)"

text \<open>\<^verbatim>\<open>sum(length + kerf for cuts)\<close>: the stock length the cuts of a bin consume.\<close>

definition used_length :: "real \<Rightarrow> bin \<Rightarrow> real" where
  "used_length cut_kerf b = (\<Sum>it\<leftarrow>cuts b. effective_length cut_kerf it)"

text \<open>
  The invariant of the packing loop: the remaining capacity is the stock length minus
  what the cuts consume, no bin is empty, and a bin that holds more than one cut has a
  non-negative remaining capacity.
\<close>

definition bin_ok :: "int \<Rightarrow> real \<Rightarrow> bin \<Rightarrow> bool" where
  "bin_ok stock_length cut_kerf b =
     (remaining b = real_of_int stock_length - used_length cut_kerf b \<and>
      cuts b \<noteq> [] \<and> (length (cuts b) = 1 \<or> 0 \<le> remaining b))"

text \<open>Every candidate the scan has kept so far leaves more than \<open>r\<close>.\<close>

definition looser_than :: "real \<Rightarrow> (nat \<times> real) option \<Rightarrow> bool" where
  "looser_than r best = (case best of None \<Rightarrow> True | Some (_, m) \<Rightarrow> r < m)"

text \<open>
  Bin-creation order: the bins of \<open>bins\<close> sit at the same positions in \<open>bins'\<close>,
  each with its cuts extended at the end, and the bins opened later follow them.
\<close>

definition opened_before :: "bin list \<Rightarrow> bin list \<Rightarrow> bool" where
  "opened_before bins bins' =
     (length bins \<le> length bins' \<and>
      (\<forall>i<length bins. prefix (cuts (bins ! i)) (cuts (bins' ! i))))"

text \<open>The lengths of the two renderings of the cuts of a bin.\<close>

definition code_len :: "item list \<Rightarrow> nat" where
  "code_len cs = length (join '' + '' (map cut_entry cs))"

definition spec_len :: "item list \<Rightarrow> nat" where
  "spec_len cs = length (grouped_details_spec cs)"

section \<open>Properties of the inner scan\<close>

lemma find_best_bin_range:
  "find_best_bin eff i best bs = Some (k, m) \<Longrightarrow>
   (best = Some (k, m)) \<or> (i \<le> k \<and> k < i + length bs)"
proof (induction bs arbitrary: i best)
  case Nil
  then show ?case by simp
next
  case (Cons b bs)
  then show ?case
    by (fastforce simp: Let_def split: if_splits)
qed

lemma find_best_bin_index:
  "find_best_bin eff 0 None bins = Some (k, m) \<Longrightarrow> k < length bins"
  using find_best_bin_range [of eff 0 None bins k m] by simp

section \<open>Conservation\<close>

lemma mset_all_cuts_append:
  "mset (all_cuts (bins @ [b])) = mset (all_cuts bins) + mset (cuts b)"
  by (simp add: all_cuts_def)

lemma mset_all_cuts_update:
  assumes "k < length bins"
  shows "mset (all_cuts (bins[k := (bins ! k)\<lparr>remaining := r, cuts := cuts (bins ! k) @ [it]\<rparr>]))
         = mset (all_cuts bins) + {#it#}"
proof -
  have split: "bins = take k bins @ (bins ! k) # drop (Suc k) bins"
    using assms by (simp add: id_take_nth_drop)
  have upd: "bins[k := (bins ! k)\<lparr>remaining := r, cuts := cuts (bins ! k) @ [it]\<rparr>]
             = take k bins @ ((bins ! k)\<lparr>remaining := r, cuts := cuts (bins ! k) @ [it]\<rparr>) # drop (Suc k) bins"
    using assms by (simp add: upd_conv_take_nth_drop)
  have "mset (all_cuts bins)
        = mset (all_cuts (take k bins)) + mset (cuts (bins ! k)) + mset (all_cuts (drop (Suc k) bins))"
    by (subst split) (simp add: all_cuts_def)
  then show ?thesis
    by (simp add: upd all_cuts_def)
qed

lemma mset_place_item:
  "mset (all_cuts (place_item stock_length cut_kerf bins it)) = mset (all_cuts bins) + {#it#}"
proof (cases "find_best_bin (effective_length cut_kerf it) 0 None bins")
  case None
  then show ?thesis
    by (simp add: place_item_def mset_all_cuts_append)
next
  case (Some km)
  obtain k m where km: "km = (k, m)" by (cases km)
  with Some have "k < length bins"
    by (auto dest: find_best_bin_index)
  with Some km show ?thesis
    by (simp add: place_item_def mset_all_cuts_update)
qed

lemma mset_pack_items:
  "mset (all_cuts (pack_items stock_length cut_kerf bins items))
   = mset (all_cuts bins) + mset items"
  unfolding pack_items_def
  by (induction items arbitrary: bins) (simp_all add: mset_place_item)

lemma mset_expand_items:
  "mset (expand_items parts)
   = (\<Sum>(profile, len, demand, w)\<leftarrow>parts. replicate_mset (nat demand) (profile, len))"
  by (induction parts rule: expand_items.induct) simp_all

lemma mset_all_cuts_best_fit:
  "mset (all_cuts (best_fit_cutting_stock parts stock_length cut_kerf)) = mset (expand_items parts)"
proof -
  have "mset (all_cuts (best_fit_cutting_stock parts stock_length cut_kerf))
        = mset (all_cuts []) + mset (sort_items (expand_items parts))"
    by (simp only: best_fit_cutting_stock_def mset_pack_items)
  then show ?thesis
    by (simp add: all_cuts_def sort_items_def)
qed

text \<open>
  Claim C1 (conservation): for every parts list, stock length and kerf, the multiset of
  (profile, length) pairs over the cuts of all returned bins is the multiset of the
  expanded items, in which each part contributes \<open>quantity\<close> copies of its pair.
\<close>

theorem conservation:
  "mset (all_cuts (best_fit_cutting_stock parts stock_length cut_kerf))
     = mset (expand_items parts)
   \<and> mset (expand_items parts)
     = (\<Sum>(profile, len, demand, w)\<leftarrow>parts. replicate_mset (nat demand) (profile, len))"
  by (simp only: mset_all_cuts_best_fit mset_expand_items)

section \<open>The capacity invariant\<close>

lemma find_best_bin_fits:
  "find_best_bin eff i best bs = Some (k, m) \<Longrightarrow>
   best = Some (k, m) \<or> (i \<le> k \<and> k < i + length bs \<and> eff \<le> remaining (bs ! (k - i)))"
proof (induction bs arbitrary: i best)
  case Nil
  then show ?case by simp
next
  case (Cons b bs)
  let ?best' = "if eff \<le> remaining b \<and> (case best of None \<Rightarrow> True | Some (_, mr) \<Rightarrow> remaining b - eff < mr)
                then Some (i, remaining b - eff) else best"
  from Cons.prems have run: "find_best_bin eff (Suc i) ?best' bs = Some (k, m)"
    by (simp add: Let_def split: if_splits)
  from Cons.IH [OF run] show ?case
  proof
    assume "?best' = Some (k, m)"
    then show ?thesis by (auto split: if_splits)
  next
    assume "Suc i \<le> k \<and> k < Suc i + length bs \<and> eff \<le> remaining (bs ! (k - Suc i))"
    then show ?thesis by (auto simp: nth_Cons')
  qed
qed

lemma find_best_bin_sound:
  assumes "find_best_bin eff 0 None bins = Some (k, m)"
  shows "k < length bins \<and> eff \<le> remaining (bins ! k)"
  using find_best_bin_fits [OF assms] by simp

lemma bin_ok_new:
  "bin_ok stock_length cut_kerf
     \<lparr>remaining = real_of_int stock_length - effective_length cut_kerf it, cuts = [it]\<rparr>"
  by (simp add: bin_ok_def used_length_def)

lemma bin_ok_add:
  assumes "bin_ok stock_length cut_kerf b" and "effective_length cut_kerf it \<le> remaining b"
  shows "bin_ok stock_length cut_kerf
           (b\<lparr>remaining := remaining b - effective_length cut_kerf it, cuts := cuts b @ [it]\<rparr>)"
  using assms by (simp add: bin_ok_def used_length_def)

lemma place_item_ok:
  assumes "\<forall>b\<in>set bins. bin_ok stock_length cut_kerf b"
  shows "\<forall>b\<in>set (place_item stock_length cut_kerf bins it). bin_ok stock_length cut_kerf b"
proof (cases "find_best_bin (effective_length cut_kerf it) 0 None bins")
  case None
  with assms show ?thesis
    by (simp add: place_item_def bin_ok_new)
next
  case (Some km)
  obtain k m where km: "km = (k, m)" by (cases km)
  with Some have k: "k < length bins" and fits: "effective_length cut_kerf it \<le> remaining (bins ! k)"
    by (auto dest: find_best_bin_sound)
  from k assms have "bin_ok stock_length cut_kerf (bins ! k)" by simp
  from bin_ok_add [OF this fits] assms Some km show ?thesis
    by (auto simp: place_item_def dest!: subsetD [OF set_update_subset_insert])
qed

lemma pack_items_ok:
  "\<forall>b\<in>set bins. bin_ok stock_length cut_kerf b \<Longrightarrow>
   \<forall>b\<in>set (pack_items stock_length cut_kerf bins items). bin_ok stock_length cut_kerf b"
  unfolding pack_items_def
proof (induction items arbitrary: bins)
  case Nil
  then show ?case by simp
next
  case (Cons it items)
  from Cons.IH [OF place_item_ok [OF Cons.prems]] show ?case by simp
qed

lemma best_fit_cutting_stock_ok:
  "b \<in> set (best_fit_cutting_stock parts stock_length cut_kerf) \<Longrightarrow> bin_ok stock_length cut_kerf b"
  using pack_items_ok [of "[]" stock_length cut_kerf "sort_items (expand_items parts)"]
  by (simp add: best_fit_cutting_stock_def)




section \<open>The best-fit choice\<close>

lemma find_best_bin_append:
  "find_best_bin eff i best (xs @ ys)
   = find_best_bin eff (i + length xs) (find_best_bin eff i best xs) ys"
  by (induction xs arbitrary: i best) (simp_all add: Let_def)

lemma find_best_bin_keep:
  assumes "\<forall>b\<in>set ys. eff \<le> remaining b \<longrightarrow> m \<le> remaining b - eff"
  shows "find_best_bin eff i (Some (k, m)) ys = Some (k, m)"
  using assms by (induction ys arbitrary: i) (auto simp: Let_def)

lemma find_best_bin_looser:
  assumes "looser_than r best"
    and "\<forall>b\<in>set xs. eff \<le> remaining b \<longrightarrow> r < remaining b - eff"
  shows "looser_than r (find_best_bin eff i best xs)"
  using assms
proof (induction xs arbitrary: i best)
  case Nil
  then show ?case by simp
next
  case (Cons b xs)
  show ?case
  proof (cases "eff \<le> remaining b \<and> (case best of None \<Rightarrow> True | Some (_, mr) \<Rightarrow> remaining b - eff < mr)")
    case True
    with Cons.prems have "looser_than r (Some (i, remaining b - eff))"
      by (simp add: looser_than_def)
    from Cons.IH [OF this] Cons.prems(2) True show ?thesis
      by (simp add: Let_def)
  next
    case False
    from Cons.IH [OF Cons.prems(1)] Cons.prems(2) False show ?thesis
      by (auto simp: Let_def)
  qed
qed

lemma find_best_bin_first_tightest:
  assumes k: "k < length bins"
    and fits: "eff \<le> remaining (bins ! k)"
    and tight: "\<forall>j<length bins. eff \<le> remaining (bins ! j)
                  \<longrightarrow> remaining (bins ! k) - eff \<le> remaining (bins ! j) - eff"
    and first: "\<forall>j<k. eff \<le> remaining (bins ! j)
                  \<longrightarrow> remaining (bins ! k) - eff < remaining (bins ! j) - eff"
  shows "find_best_bin eff 0 None bins = Some (k, remaining (bins ! k) - eff)"
proof -
  let ?r = "remaining (bins ! k) - eff"
  let ?pre = "take k bins" and ?post = "drop (Suc k) bins"
  have split: "bins = ?pre @ [bins ! k] @ ?post"
    using k by (simp add: id_take_nth_drop)
  have len: "length ?pre = k" using k by simp
  have "\<forall>b\<in>set ?pre. eff \<le> remaining b \<longrightarrow> ?r < remaining b - eff"
  proof
    fix b assume "b \<in> set ?pre"
    then obtain j where "j < length ?pre" "b = ?pre ! j"
      by (auto simp: in_set_conv_nth)
    with first k show "eff \<le> remaining b \<longrightarrow> ?r < remaining b - eff" by simp
  qed
  then have pre: "looser_than ?r (find_best_bin eff 0 None ?pre)"
    by (intro find_best_bin_looser) (simp_all add: looser_than_def)
  have at: "find_best_bin eff k (find_best_bin eff 0 None ?pre) [bins ! k] = Some (k, ?r)"
    using pre fits by (auto simp: looser_than_def Let_def split: option.splits)
  have "\<forall>b\<in>set ?post. eff \<le> remaining b \<longrightarrow> ?r \<le> remaining b - eff"
  proof
    fix b assume "b \<in> set ?post"
    then obtain j where "j < length ?post" "b = ?post ! j"
      by (auto simp: in_set_conv_nth)
    with tight k show "eff \<le> remaining b \<longrightarrow> ?r \<le> remaining b - eff" by simp
  qed
  then have post: "find_best_bin eff (Suc k) (Some (k, ?r)) ?post = Some (k, ?r)"
    by (rule find_best_bin_keep)
  have "find_best_bin eff 0 None bins
        = find_best_bin eff 0 None (?pre @ [bins ! k] @ ?post)"
    using split by simp
  also have "\<dots> = find_best_bin eff (Suc k)
                    (find_best_bin eff k (find_best_bin eff 0 None ?pre) [bins ! k]) ?post"
    by (simp only: find_best_bin_append len) simp
  also have "\<dots> = Some (k, ?r)"
    by (simp only: at post)
  finally show ?thesis .
qed

text \<open>
  Claim C9 (tie among equally tight bins): when bin \<open>k\<close> fits the item, no fitting
  bin leaves less after placement, and every fitting bin before \<open>k\<close> leaves strictly
  more, the item goes into bin \<open>k\<close>: among the fitting bins that share the minimal
  remaining-after value, the earliest one of the list receives the item. The bins are
  in creation order, so this is the earliest-opened one; the second part states it for
  the run of the packer that has reached these bins.
\<close>

theorem best_fit_tie_break:
  assumes "k < length bins"
    and "effective_length cut_kerf it \<le> remaining (bins ! k)"
    and "\<forall>j<length bins. effective_length cut_kerf it \<le> remaining (bins ! j)
           \<longrightarrow> remaining (bins ! k) - effective_length cut_kerf it
               \<le> remaining (bins ! j) - effective_length cut_kerf it"
    and "\<forall>j<k. effective_length cut_kerf it \<le> remaining (bins ! j)
           \<longrightarrow> remaining (bins ! k) - effective_length cut_kerf it
               < remaining (bins ! j) - effective_length cut_kerf it"
  shows "place_item stock_length cut_kerf bins it
           = bins[k := (bins ! k)\<lparr>remaining := remaining (bins ! k) - effective_length cut_kerf it,
                                    cuts := cuts (bins ! k) @ [it]\<rparr>]
         \<and> (\<forall>parts xs ys.
               sort_items (expand_items parts) = xs @ it # ys
               \<and> pack_items stock_length cut_kerf [] xs = bins
               \<longrightarrow> best_fit_cutting_stock parts stock_length cut_kerf
                   = pack_items stock_length cut_kerf
                       (bins[k := (bins ! k)\<lparr>remaining := remaining (bins ! k) - effective_length cut_kerf it,
                                                cuts := cuts (bins ! k) @ [it]\<rparr>]) ys)"
proof -
  have step: "place_item stock_length cut_kerf bins it
           = bins[k := (bins ! k)\<lparr>remaining := remaining (bins ! k) - effective_length cut_kerf it,
                                    cuts := cuts (bins ! k) @ [it]\<rparr>]"
    using find_best_bin_first_tightest [OF assms]
    by (simp add: place_item_def)
  have "best_fit_cutting_stock parts stock_length cut_kerf
          = pack_items stock_length cut_kerf (place_item stock_length cut_kerf bins it) ys"
    if "sort_items (expand_items parts) = xs @ it # ys"
      and "pack_items stock_length cut_kerf [] xs = bins" for parts xs ys
    using that by (simp add: best_fit_cutting_stock_def pack_items_def)
  with step show ?thesis by simp
qed

theorem best_fit_tie_break_witness:
  "sort_items (expand_items [(''A'', 40, 4, 1), (''A'', 15, 1, 1), (''A'', 70, 1, 1)])
     = [(''A'', 70), (''A'', 40), (''A'', 40), (''A'', 40), (''A'', 40)] @ (''A'', 15) # []
   \<and> pack_items 100 0 [] [(''A'', 70), (''A'', 40), (''A'', 40), (''A'', 40), (''A'', 40)]
     = [\<lparr>remaining = 30, cuts = [(''A'', 70)]\<rparr>,
        \<lparr>remaining = 20, cuts = [(''A'', 40), (''A'', 40)]\<rparr>,
        \<lparr>remaining = 20, cuts = [(''A'', 40), (''A'', 40)]\<rparr>]
   \<and> place_item 100 0
       [\<lparr>remaining = 30, cuts = [(''A'', 70)]\<rparr>,
        \<lparr>remaining = 20, cuts = [(''A'', 40), (''A'', 40)]\<rparr>,
        \<lparr>remaining = 20, cuts = [(''A'', 40), (''A'', 40)]\<rparr>] (''A'', 15)
     = [\<lparr>remaining = 30, cuts = [(''A'', 70)]\<rparr>,
        \<lparr>remaining = 5, cuts = [(''A'', 40), (''A'', 40), (''A'', 15)]\<rparr>,
        \<lparr>remaining = 20, cuts = [(''A'', 40), (''A'', 40)]\<rparr>]
   \<and> best_fit_cutting_stock [(''A'', 40, 4, 1), (''A'', 15, 1, 1), (''A'', 70, 1, 1)] 100 0
     = [\<lparr>remaining = 30, cuts = [(''A'', 70)]\<rparr>,
        \<lparr>remaining = 5, cuts = [(''A'', 40), (''A'', 40), (''A'', 15)]\<rparr>,
        \<lparr>remaining = 20, cuts = [(''A'', 40), (''A'', 40)]\<rparr>]"
proof -
  let ?parts = "[(''A'', 40, 4, 1), (''A'', 15, 1, 1), (''A'', 70, 1, 1)] :: part list"
  let ?xs = "[(''A'', 70), (''A'', 40), (''A'', 40), (''A'', 40), (''A'', 40)] :: item list"
  let ?bins = "[\<lparr>remaining = 30, cuts = [(''A'', 70)]\<rparr>,
                \<lparr>remaining = 20, cuts = [(''A'', 40), (''A'', 40)]\<rparr>,
                \<lparr>remaining = 20, cuts = [(''A'', 40), (''A'', 40)]\<rparr>]"
  have sorted: "sort_items (expand_items ?parts) = ?xs @ (''A'', 15) # []"
    by code_simp
  have before: "pack_items 100 0 [] ?xs = ?bins"
    by code_simp
  have h1: "Suc 0 < length ?bins" by simp
  have h2: "effective_length 0 (''A'', 15) \<le> remaining (?bins ! Suc 0)"
    by (simp add: effective_length_def)
  have h3: "\<forall>j<length ?bins. effective_length 0 (''A'', 15) \<le> remaining (?bins ! j)
           \<longrightarrow> remaining (?bins ! Suc 0) - effective_length 0 (''A'', 15)
               \<le> remaining (?bins ! j) - effective_length 0 (''A'', 15)"
    by (auto simp: less_Suc_eq effective_length_def)
  have h4: "\<forall>j<Suc 0. effective_length 0 (''A'', 15) \<le> remaining (?bins ! j)
           \<longrightarrow> remaining (?bins ! Suc 0) - effective_length 0 (''A'', 15)
               < remaining (?bins ! j) - effective_length 0 (''A'', 15)"
    by (simp add: effective_length_def)
  note tie = best_fit_tie_break [OF h1 h2 h3 h4, of 100]
  from tie have step: "place_item 100 0 ?bins (''A'', 15)
     = [\<lparr>remaining = 30, cuts = [(''A'', 70)]\<rparr>,
        \<lparr>remaining = 5, cuts = [(''A'', 40), (''A'', 40), (''A'', 15)]\<rparr>,
        \<lparr>remaining = 20, cuts = [(''A'', 40), (''A'', 40)]\<rparr>]"
    by (simp add: effective_length_def)
  from tie sorted before
  have "best_fit_cutting_stock ?parts 100 0
        = pack_items 100 0
            (?bins[Suc 0 := (?bins ! Suc 0)\<lparr>remaining := remaining (?bins ! Suc 0) - effective_length 0 (''A'', 15),
                                          cuts := cuts (?bins ! Suc 0) @ [(''A'', 15)]\<rparr>]) []"
    by blast
  then have run: "best_fit_cutting_stock ?parts 100 0
     = [\<lparr>remaining = 30, cuts = [(''A'', 70)]\<rparr>,
        \<lparr>remaining = 5, cuts = [(''A'', 40), (''A'', 40), (''A'', 15)]\<rparr>,
        \<lparr>remaining = 20, cuts = [(''A'', 40), (''A'', 40)]\<rparr>]"
    by (simp add: pack_items_def effective_length_def)
  from sorted before step run show ?thesis by (simp only: simp_thms)
qed

section \<open>Packing order\<close>

lemma opened_before_refl: "opened_before bins bins"
  by (simp add: opened_before_def)

lemma opened_before_trans:
  "opened_before a b \<Longrightarrow> opened_before b c \<Longrightarrow> opened_before a c"
  unfolding opened_before_def
  by (meson dual_order.trans less_le_trans prefix_order.trans)

lemma opened_before_place_item:
  "opened_before bins (place_item stock_length cut_kerf bins it)"
proof (cases "find_best_bin (effective_length cut_kerf it) 0 None bins")
  case None
  then show ?thesis
    by (simp add: place_item_def opened_before_def nth_append)
next
  case (Some km)
  obtain k m where km: "km = (k, m)" by (cases km)
  with Some have "k < length bins"
    by (auto dest: find_best_bin_index)
  with Some km show ?thesis
    by (auto simp: place_item_def opened_before_def nth_list_update)
qed

lemma opened_before_pack_items:
  "opened_before bins (pack_items stock_length cut_kerf bins items)"
  unfolding pack_items_def
proof (induction items arbitrary: bins)
  case Nil
  show ?case by (simp add: opened_before_refl)
next
  case (Cons it items)
  from opened_before_trans [OF opened_before_place_item Cons.IH] show ?case by simp
qed

lemma pack_items_append:
  "pack_items stock_length cut_kerf bins (xs @ ys)
   = pack_items stock_length cut_kerf (pack_items stock_length cut_kerf bins xs) ys"
  by (simp add: pack_items_def)

lemma sorted_sort_items: "sorted_wrt (\<lambda>a b. snd b \<le> snd a) (sort_items items)"
proof -
  have "sorted (map (\<lambda>x. - snd x) (sort_items items))"
    unfolding sort_items_def by (rule sorted_sort_key)
  then show ?thesis by (simp add: sorted_map)
qed

lemma stable_sort_items:
  "filter (\<lambda>x. snd x = len) (sort_items items) = filter (\<lambda>x. snd x = len) items"
  using sort_key_stable [of "\<lambda>x. - snd x" "- len" items]
  by (simp add: sort_items_def)

text \<open>
  Claim C8 (packing order): the items are processed sorted by descending length, the sort
  is stable (the items of each length keep their order from the expansion), and the
  returned bins are in creation order: the bins that exist after any prefix of the items
  are the first bins of the result, in the same order.
\<close>

theorem packing_order:
  "sorted_wrt (\<lambda>a b. snd b \<le> snd a) (sort_items (expand_items parts))
   \<and> mset (sort_items (expand_items parts)) = mset (expand_items parts)
   \<and> (\<forall>len. filter (\<lambda>x. snd x = len) (sort_items (expand_items parts))
             = filter (\<lambda>x. snd x = len) (expand_items parts))
   \<and> (\<forall>xs ys. sort_items (expand_items parts) = xs @ ys \<longrightarrow>
         best_fit_cutting_stock parts stock_length cut_kerf
           = pack_items stock_length cut_kerf (pack_items stock_length cut_kerf [] xs) ys
         \<and> opened_before (pack_items stock_length cut_kerf [] xs)
             (best_fit_cutting_stock parts stock_length cut_kerf))"
proof (intro conjI allI impI)
  show "sorted_wrt (\<lambda>a b. snd b \<le> snd a) (sort_items (expand_items parts))"
    by (rule sorted_sort_items)
  show "mset (sort_items (expand_items parts)) = mset (expand_items parts)"
    by (simp add: sort_items_def)
  show "filter (\<lambda>x. snd x = len) (sort_items (expand_items parts))
        = filter (\<lambda>x. snd x = len) (expand_items parts)" for len
    by (rule stable_sort_items)
next
  fix xs ys
  assume split: "sort_items (expand_items parts) = xs @ ys"
  then show run: "best_fit_cutting_stock parts stock_length cut_kerf
        = pack_items stock_length cut_kerf (pack_items stock_length cut_kerf [] xs) ys"
    by (simp add: best_fit_cutting_stock_def pack_items_append)
  show "opened_before (pack_items stock_length cut_kerf [] xs)
          (best_fit_cutting_stock parts stock_length cut_kerf)"
    by (simp only: run opened_before_pack_items)
qed

theorem packing_order_witness:
  "sort_items (expand_items [(''A'', 50, 1, 1), (''B'', 100, 1, 1), (''C'', 50, 1, 1)])
     = [(''B'', 100)] @ [(''A'', 50), (''C'', 50)]
   \<and> pack_items 120 0 [] [(''B'', 100)] = [\<lparr>remaining = 20, cuts = [(''B'', 100)]\<rparr>]
   \<and> best_fit_cutting_stock [(''A'', 50, 1, 1), (''B'', 100, 1, 1), (''C'', 50, 1, 1)] 120 0
     = [\<lparr>remaining = 20, cuts = [(''B'', 100)]\<rparr>,
        \<lparr>remaining = 20, cuts = [(''A'', 50), (''C'', 50)]\<rparr>]
   \<and> opened_before [\<lparr>remaining = 20, cuts = [(''B'', 100)]\<rparr>]
        [\<lparr>remaining = 20, cuts = [(''B'', 100)]\<rparr>,
         \<lparr>remaining = 20, cuts = [(''A'', 50), (''C'', 50)]\<rparr>]"
proof -
  have s: "sort_items (expand_items [(''A'', 50, 1, 1), (''B'', 100, 1, 1), (''C'', 50, 1, 1)])
     = [(''B'', 100)] @ [(''A'', 50), (''C'', 50)]"
    by code_simp
  have p: "pack_items 120 0 [] [(''B'', 100)] = [\<lparr>remaining = 20, cuts = [(''B'', 100)]\<rparr>]"
    by code_simp
  have r: "best_fit_cutting_stock [(''A'', 50, 1, 1), (''B'', 100, 1, 1), (''C'', 50, 1, 1)] 120 0
     = [\<lparr>remaining = 20, cuts = [(''B'', 100)]\<rparr>,
        \<lparr>remaining = 20, cuts = [(''A'', 50), (''C'', 50)]\<rparr>]"
    by code_simp
  from packing_order [of "[(''A'', 50, 1, 1), (''B'', 100, 1, 1), (''C'', 50, 1, 1)]" 120 0] s
  have "opened_before (pack_items 120 0 [] [(''B'', 100)])
          (best_fit_cutting_stock [(''A'', 50, 1, 1), (''B'', 100, 1, 1), (''C'', 50, 1, 1)] 120 0)"
    by blast
  with s p r show ?thesis by simp
qed

text \<open>
  Claim C3 (worked example): a parts list of one profile that expands to the lengths
  100, 90, 50, with stock length 150 and kerf 0, gives two bins: cuts 100 and 50 with
  remaining 0, then cut 90 with remaining 60.
\<close>

theorem tie_break_example:
  assumes "expand_items parts = [(p, 100), (p, 90), (p, 50)]"
  shows "best_fit_cutting_stock parts 150 0
         = [\<lparr>remaining = 0, cuts = [(p, 100), (p, 50)]\<rparr>, \<lparr>remaining = 60, cuts = [(p, 90)]\<rparr>]"
  using assms
  by (simp add: best_fit_cutting_stock_def sort_items_def pack_items_def place_item_def
      effective_length_def)

theorem tie_break_example_witness:
  "expand_items [(''A'', 100, 1, 2), (''A'', 90, 1, 2), (''A'', 50, 1, 2)]
     = [(''A'', 100), (''A'', 90), (''A'', 50)]
   \<and> best_fit_cutting_stock [(''A'', 100, 1, 2), (''A'', 90, 1, 2), (''A'', 50, 1, 2)] 150 0
     = [\<lparr>remaining = 0, cuts = [(''A'', 100), (''A'', 50)]\<rparr>,
        \<lparr>remaining = 60, cuts = [(''A'', 90)]\<rparr>]"
proof -
  have items: "expand_items [(''A'', 100, 1, 2), (''A'', 90, 1, 2), (''A'', 50, 1, 2)]
     = [(''A'', 100), (''A'', 90), (''A'', 50)]"
    by code_simp
  from tie_break_example [OF items] items show ?thesis
    by simp
qed

section \<open>Items longer than the stock\<close>







section \<open>The pattern details table\<close>

lemma str_nat_1: "str_nat (Suc 0) = ''1''"
  by (simp add: str_nat.simps)

lemma group_runs_spec_distinct_adj:
  "distinct_adj cs \<Longrightarrow> group_runs_spec cs = map (\<lambda>x. (x, Suc 0)) cs"
proof (induction cs)
  case Nil
  show ?case by simp
next
  case (Cons x xs)
  then show ?case
    by (cases xs) (auto simp: distinct_adj_Cons)
qed

lemma grouped_entry_spec_1: "grouped_entry_spec (x, Suc 0) = cut_entry x"
  by (cases x) (simp add: str_nat_1)

lemma grouped_details_spec_distinct_adj:
  assumes "distinct_adj cs"
  shows "grouped_details_spec cs = join '' + '' (map cut_entry cs)"
  by (simp add: grouped_details_spec_def group_runs_spec_distinct_adj [OF assms]
      comp_def grouped_entry_spec_1)

lemma length_join:
  "length (join sep xs) = sum_list (map length xs) + length sep * (length xs - 1)"
  by (induction sep xs rule: join.induct) simp_all

lemma length_str_nat_pos: "0 < length (str_nat n)"
  by (subst str_nat.simps) simp

lemma length_str_nat_Suc: "length (str_nat (Suc n)) \<le> Suc (length (str_nat n))"
proof (induction n rule: str_nat.induct)
  case (1 n)
  show ?case
  proof (cases "Suc n < 10")
    case True
    then show ?thesis by (subst str_nat.simps) simp
  next
    case big: False
    show ?thesis
    proof (cases "n < 10")
      case True
      with big have "n = 9" by simp
      then show ?thesis by (simp add: str_nat.simps)
    next
      case False
      have div: "Suc n div 10 = n div 10 \<or> Suc n div 10 = Suc (n div 10)"
        by presburger
      from False 1 have IH: "length (str_nat (Suc (n div 10))) \<le> Suc (length (str_nat (n div 10)))"
        by simp
      have "length (str_nat (Suc n)) = Suc (length (str_nat (Suc n div 10)))"
        using big by (subst str_nat.simps) simp
      also have "\<dots> \<le> Suc (Suc (length (str_nat (n div 10))))"
        using div IH by auto
      also have "\<dots> = Suc (length (str_nat n))"
        using False by (subst (2) str_nat.simps) simp
      finally show ?thesis .
    qed
  qed
qed

lemma group_runs_spec_Nil_iff: "group_runs_spec cs = [] \<longleftrightarrow> cs = []"
  by (cases cs) (auto split: list.splits)

lemma group_runs_spec_hd:
  "group_runs_spec (y # ys) = (z, n) # rest \<Longrightarrow> z = y"
  by (auto split: list.splits if_splits)

lemma length_cut_entry: "length (cut_entry x) = 7 + length (fst x) + length (str_int (snd x))"
  by (cases x) simp

lemma length_grouped_entry_spec:
  "length (grouped_entry_spec (x, n)) = length (str_nat n) + 6 + length (fst x) + length (str_int (snd x))"
  by (cases x) simp

lemma spec_len_le_code_len:
  "spec_len cs \<le> code_len cs \<and> (\<not> distinct_adj cs \<longrightarrow> spec_len cs < code_len cs)"
proof (induction cs)
  case Nil
  show ?case by (simp add: spec_len_def code_len_def grouped_details_spec_def)
next
  case (Cons x xs)
  show ?case
  proof (cases xs)
    case Nil
    then show ?thesis
      by (simp add: spec_len_def code_len_def grouped_details_spec_def grouped_entry_spec_1)
  next
    case (Cons y ys)
    then have "group_runs_spec xs \<noteq> []" by (simp only: group_runs_spec_Nil_iff) simp
    then obtain z n rest where runs: "group_runs_spec xs = (z, n) # rest"
      by (cases "group_runs_spec xs") auto
    from runs [unfolded Cons] have z: "z = y" by (rule group_runs_spec_hd)
    have code: "code_len (x # xs) = length (cut_entry x) + 3 + code_len xs"
      using Cons by (simp add: code_len_def)
    show ?thesis
    proof (cases "x = y")
      case True
      have spec_xs: "spec_len xs
          = length (grouped_entry_spec (y, n)) + sum_list (map length (map grouped_entry_spec rest))
              + 3 * length rest"
        using runs z by (simp add: spec_len_def grouped_details_spec_def length_join)
      have spec_x: "spec_len (x # xs)
          = length (grouped_entry_spec (y, Suc n)) + sum_list (map length (map grouped_entry_spec rest))
              + 3 * length rest"
        using runs z True by (simp add: spec_len_def grouped_details_spec_def length_join)
      have "length (grouped_entry_spec (y, Suc n)) \<le> Suc (length (grouped_entry_spec (y, n)))"
        using length_str_nat_Suc [of n] by (simp add: length_grouped_entry_spec)
      with spec_xs spec_x have "spec_len (x # xs) \<le> Suc (spec_len xs)" by simp
      also have "\<dots> \<le> Suc (code_len xs)" using Cons.IH by simp
      also have "\<dots> < code_len (x # xs)" using code by (simp add: length_cut_entry)
      finally show ?thesis by simp
    next
      case False
      have "spec_len (x # xs) = length (cut_entry x) + 3 + spec_len xs"
        using runs z False
        by (simp add: spec_len_def grouped_details_spec_def length_join grouped_entry_spec_1)
      with code Cons.IH False Cons show ?thesis
        by (auto simp: distinct_adj_Cons)
    qed
  qed
qed

lemma grouped_details_spec_eq_iff:
  "join '' + '' (map cut_entry cs) = grouped_details_spec cs \<longleftrightarrow> distinct_adj cs"
proof
  assume eq: "join '' + '' (map cut_entry cs) = grouped_details_spec cs"
  show "distinct_adj cs"
  proof (rule ccontr)
    assume "\<not> distinct_adj cs"
    with spec_len_le_code_len [of cs] have "spec_len cs < code_len cs" by simp
    with eq show False by (simp add: spec_len_def code_len_def)
  qed
next
  assume "distinct_adj cs"
  then show "join '' + '' (map cut_entry cs) = grouped_details_spec cs"
    by (simp add: grouped_details_spec_distinct_adj)
qed


lemma pattern_rows_nth:
  assumes "i < length bins"
  shows "fst (generate_pattern_details_table bins stock_length) ! i
         = pattern_row_of stock_length (Suc i) (bins ! i)"
  using assms by (simp add: generate_pattern_details_table_def nth_enumerate_eq)

lemma length_pattern_rows:
  "length (fst (generate_pattern_details_table bins stock_length)) = length bins"
  by (simp add: generate_pattern_details_table_def)

text \<open>
  Claim C4, as amended: the cut details of a bin are one entry \<^verbatim>\<open>1x Profile(Lmm)\<close> for
  each cut, in the order of the cuts and joined by \<^verbatim>\<open> + \<close>; identical consecutive cuts
  are not merged into one counted entry. The string is the grouped rendering of the
  specification exactly when no two consecutive cuts of the bin are identical.
\<close>

theorem cut_details_one_entry_per_cut:
  "length (fst (generate_pattern_details_table bins stock_length)) = length bins
   \<and> (\<forall>i<length bins.
         cut_details (fst (generate_pattern_details_table bins stock_length) ! i)
           = join '' + ''
               (map (\<lambda>(profile, len). ''1x '' @ profile @ ''('' @ str_int len @ ''mm)'') (cuts (bins ! i)))
         \<and> (cut_details (fst (generate_pattern_details_table bins stock_length) ! i)
                = grouped_details_spec (cuts (bins ! i))
              \<longleftrightarrow> distinct_adj (cuts (bins ! i))))"
proof (intro conjI allI impI)
  show "length (fst (generate_pattern_details_table bins stock_length)) = length bins"
    by (rule length_pattern_rows)
next
  fix i assume i: "i < length bins"
  have entry: "cut_entry = (\<lambda>(profile, len). ''1x '' @ profile @ ''('' @ str_int len @ ''mm)'')"
    by (rule ext) auto
  show "cut_details (fst (generate_pattern_details_table bins stock_length) ! i)
        = join '' + ''
            (map (\<lambda>(profile, len). ''1x '' @ profile @ ''('' @ str_int len @ ''mm)'') (cuts (bins ! i)))"
    by (simp only: pattern_rows_nth [OF i] entry [symmetric]) (simp add: pattern_row_of_def)
  show "cut_details (fst (generate_pattern_details_table bins stock_length) ! i)
          = grouped_details_spec (cuts (bins ! i))
        \<longleftrightarrow> distinct_adj (cuts (bins ! i))"
    using grouped_details_spec_eq_iff [of "cuts (bins ! i)"]
    by (simp add: pattern_rows_nth [OF i] pattern_row_of_def)
qed

text \<open>
  The grouping of claim C4 fails on the plan for two pieces of 3000 from a stock of 6000:
  the table shows two \<^verbatim>\<open>1x\<close> entries where the grouped rendering is \<^verbatim>\<open>2x P(3000mm)\<close>.
\<close>

theorem cut_details_grouping_counterexample:
  "best_fit_cutting_stock [(''P'', 3000, 2, 1)] 6000 0
     = [\<lparr>remaining = 0, cuts = [(''P'', 3000), (''P'', 3000)]\<rparr>]
   \<and> map cut_details
       (fst (generate_pattern_details_table (best_fit_cutting_stock [(''P'', 3000, 2, 1)] 6000 0) 6000))
     = [''1x P(3000mm) + 1x P(3000mm)'']
   \<and> map (\<lambda>b. grouped_details_spec (cuts b)) (best_fit_cutting_stock [(''P'', 3000, 2, 1)] 6000 0)
     = [''2x P(3000mm)'']
   \<and> map cut_details
       (fst (generate_pattern_details_table (best_fit_cutting_stock [(''P'', 3000, 2, 1)] 6000 0) 6000))
     \<noteq> map (\<lambda>b. grouped_details_spec (cuts b)) (best_fit_cutting_stock [(''P'', 3000, 2, 1)] 6000 0)"
proof -
  have run: "best_fit_cutting_stock [(''P'', 3000, 2, 1)] 6000 0
     = [\<lparr>remaining = 0, cuts = [(''P'', 3000), (''P'', 3000)]\<rparr>]"
    by code_simp
  have shown: "map cut_details
       (fst (generate_pattern_details_table [\<lparr>remaining = 0, cuts = [(''P'', 3000), (''P'', 3000)]\<rparr>] 6000))
     = [''1x P(3000mm) + 1x P(3000mm)'']"
    by (simp add: generate_pattern_details_table_def enumerate_eq_zip pattern_row_of_def
        str_int_def str_nat.simps)
  have grouped: "grouped_details_spec [(''P'', 3000), (''P'', 3000)] = ''2x P(3000mm)''"
    by (simp add: grouped_details_spec_def str_int_def str_nat.simps)
  show ?thesis
    by (simp add: run shown grouped)
qed

theorem cut_details_one_entry_per_cut_witness:
  "(0::nat) < length (best_fit_cutting_stock [(''P'', 3000, 1, 1), (''Q'', 2000, 1, 1)] 6000 0)
   \<and> distinct_adj (cuts (best_fit_cutting_stock [(''P'', 3000, 1, 1), (''Q'', 2000, 1, 1)] 6000 0 ! 0))
   \<and> cut_details (fst (generate_pattern_details_table
         (best_fit_cutting_stock [(''P'', 3000, 1, 1), (''Q'', 2000, 1, 1)] 6000 0) 6000) ! 0)
      = ''1x P(3000mm) + 1x Q(2000mm)''
   \<and> grouped_details_spec (cuts (best_fit_cutting_stock [(''P'', 3000, 1, 1), (''Q'', 2000, 1, 1)] 6000 0 ! 0))
      = ''1x P(3000mm) + 1x Q(2000mm)''"
proof -
  let ?bins = "best_fit_cutting_stock [(''P'', 3000, 1, 1), (''Q'', 2000, 1, 1)] 6000 0"
  have run: "?bins = [\<lparr>remaining = 1000, cuts = [(''P'', 3000), (''Q'', 2000)]\<rparr>]"
    by code_simp
  have len: "0 < length ?bins" by (simp add: run)
  have adj: "distinct_adj (cuts (?bins ! 0))" by (simp add: run)
  have det: "cut_details (fst (generate_pattern_details_table ?bins 6000) ! 0)
      = ''1x P(3000mm) + 1x Q(2000mm)''"
    by (simp add: run generate_pattern_details_table_def enumerate_eq_zip pattern_row_of_def
        str_int_def str_nat.simps)
  from cut_details_one_entry_per_cut [of ?bins 6000] len adj
  have "cut_details (fst (generate_pattern_details_table ?bins 6000) ! 0)
        = grouped_details_spec (cuts (?bins ! 0))"
    by blast
  with len adj det show ?thesis by simp
qed

section \<open>The final report\<close>

lemma generate_final_report_Cons:
  "generate_final_report ((profile0, len0, demand0, weight) # rest) bins stock_length cut_kerf profile
   = Inr ([\<lparr>row_profile = (case profile of None \<Rightarrow> profile0
                                | Some pr \<Rightarrow> if pr \<noteq> [] then pr else profile0),
            total_stocks_used = int (length bins),
            row_stock_length = stock_length,
            weight_per_m = weight,
            total_stock_consumed_m = real_of_int (total_stock_consumed_mm bins stock_length) / 1000,
            effective_usage_m
              = real_of_int (effective_usage_mm ((profile0, len0, demand0, weight) # rest)) / 1000,
            waste_m = waste_mm ((profile0, len0, demand0, weight) # rest) bins stock_length cut_kerf / 1000,
            total_order_weight_kg
              = (if weight > 0
                 then real_of_int (total_stock_consumed_mm bins stock_length) / 1000 * weight else 0),
            effective_weight_kg
              = (if weight > 0
                 then real_of_int (effective_usage_mm ((profile0, len0, demand0, weight) # rest)) / 1000 * weight
                 else 0),
            waste_weight_kg
              = (if weight > 0
                 then waste_mm ((profile0, len0, demand0, weight) # rest) bins stock_length cut_kerf / 1000 * weight
                 else 0)\<rparr>],
         final_headers)"
  by (simp add: generate_final_report_def Let_def)

lemma generate_final_report_Nil:
  "generate_final_report [] bins stock_length cut_kerf profile = Inl IndexError"
  by (simp add: generate_final_report_def)

lemma expand_items_three: "expand_items [(p, len, 3, w)] = [(p, len), (p, len), (p, len)]"
  by (simp add: numeral_3_eq_3)

lemma three_bins:
  "best_fit_cutting_stock [(p, 100, 3, w)] 100 0
   = [\<lparr>remaining = 0, cuts = [(p, 100)]\<rparr>, \<lparr>remaining = 0, cuts = [(p, 100)]\<rparr>,
      \<lparr>remaining = 0, cuts = [(p, 100)]\<rparr>]"
  by (simp add: best_fit_cutting_stock_def expand_items_three sort_items_def pack_items_def
      place_item_def effective_length_def del: expand_items.simps)

text \<open>
  Claim C6 (aggregate waste): for a non-empty parts group the report is computed from
  \<open>waste_mm = bin_count * stock_length - sum (length * quantity) - kerf * sum quantity\<close>;
  one part of length 100 and quantity 3 with stock length 100 and kerf 0 is packed into
  3 bins, and the report has 3 stocks used, an effective usage of 300 mm and no waste.
\<close>

theorem aggregate_waste:
  "(parts \<noteq> [] \<longrightarrow>
      (\<exists>row. generate_final_report parts bins stock_length cut_kerf profile = Inr ([row], final_headers)
         \<and> total_stocks_used row = int (length bins)
         \<and> effective_usage_m row
             = real_of_int (\<Sum>(profile, len, demand, w)\<leftarrow>parts. len * demand) / 1000
         \<and> waste_m row
             = (real_of_int (int (length bins) * stock_length)
                  - real_of_int (\<Sum>(profile, len, demand, w)\<leftarrow>parts. len * demand)
                  - cut_kerf * real_of_int (\<Sum>(profile, len, demand, w)\<leftarrow>parts. demand)) / 1000))
   \<and> waste_mm parts bins stock_length cut_kerf
       = real_of_int (int (length bins) * stock_length)
           - real_of_int (\<Sum>(profile, len, demand, w)\<leftarrow>parts. len * demand)
           - cut_kerf * real_of_int (\<Sum>(profile, len, demand, w)\<leftarrow>parts. demand)
   \<and> length (best_fit_cutting_stock [(p, 100, 3, w)] 100 0) = 3
   \<and> effective_usage_mm [(p, 100, 3, w)] = 300
   \<and> waste_mm [(p, 100, 3, w)] (best_fit_cutting_stock [(p, 100, 3, w)] 100 0) 100 0 = 0
   \<and> (\<exists>row. generate_final_report [(p, 100, 3, w)] (best_fit_cutting_stock [(p, 100, 3, w)] 100 0)
               100 0 profile = Inr ([row], final_headers)
         \<and> total_stocks_used row = 3 \<and> effective_usage_m row * 1000 = 300 \<and> waste_m row = 0)"
proof (intro conjI impI)
  assume "parts \<noteq> []"
  then obtain profile0 len0 demand0 weight rest
    where parts: "parts = (profile0, len0, demand0, weight) # rest"
    by (cases parts) auto
  show "\<exists>row. generate_final_report parts bins stock_length cut_kerf profile = Inr ([row], final_headers)
         \<and> total_stocks_used row = int (length bins)
         \<and> effective_usage_m row
             = real_of_int (\<Sum>(profile, len, demand, w)\<leftarrow>parts. len * demand) / 1000
         \<and> waste_m row
             = (real_of_int (int (length bins) * stock_length)
                  - real_of_int (\<Sum>(profile, len, demand, w)\<leftarrow>parts. len * demand)
                  - cut_kerf * real_of_int (\<Sum>(profile, len, demand, w)\<leftarrow>parts. demand)) / 1000"
    unfolding parts generate_final_report_Cons
    by (simp add: effective_usage_mm_def waste_mm_def total_stock_consumed_mm_def)
next
  show "waste_mm parts bins stock_length cut_kerf
       = real_of_int (int (length bins) * stock_length)
           - real_of_int (\<Sum>(profile, len, demand, w)\<leftarrow>parts. len * demand)
           - cut_kerf * real_of_int (\<Sum>(profile, len, demand, w)\<leftarrow>parts. demand)"
    by (simp add: effective_usage_mm_def waste_mm_def total_stock_consumed_mm_def)
next
  show "length (best_fit_cutting_stock [(p, 100, 3, w)] 100 0) = 3"
    by (simp add: three_bins)
next
  show "effective_usage_mm [(p, 100, 3, w)] = 300"
    by (simp add: effective_usage_mm_def)
next
  show "waste_mm [(p, 100, 3, w)] (best_fit_cutting_stock [(p, 100, 3, w)] 100 0) 100 0 = 0"
    by (simp add: three_bins effective_usage_mm_def waste_mm_def total_stock_consumed_mm_def)
next
  show "\<exists>row. generate_final_report [(p, 100, 3, w)] (best_fit_cutting_stock [(p, 100, 3, w)] 100 0)
               100 0 profile = Inr ([row], final_headers)
         \<and> total_stocks_used row = 3 \<and> effective_usage_m row * 1000 = 300 \<and> waste_m row = 0"
    unfolding generate_final_report_Cons
    by (simp add: three_bins effective_usage_mm_def waste_mm_def total_stock_consumed_mm_def)
qed

theorem aggregate_waste_witness:
  "[(''A'', 400, 2, 2)] \<noteq> ([] :: part list)
   \<and> (\<exists>row. generate_final_report [(''A'', 400, 2, 2)]
                (best_fit_cutting_stock [(''A'', 400, 2, 2)] 1000 3) 1000 3 None
              = Inr ([row], final_headers)
          \<and> total_stocks_used row = 1
          \<and> effective_usage_m row = 800 / 1000
          \<and> waste_m row = 194 / 1000)"
proof -
  have run: "best_fit_cutting_stock [(''A'', 400, 2, 2)] 1000 3
             = [\<lparr>remaining = 194, cuts = [(''A'', 400), (''A'', 400)]\<rparr>]"
    by code_simp
  have ne: "[(''A'', 400, 2, 2)] \<noteq> ([] :: part list)" by simp
  from aggregate_waste [of "[(''A'', 400, 2, 2)]" "best_fit_cutting_stock [(''A'', 400, 2, 2)] 1000 3"
      1000 3 None] ne
  show ?thesis by (auto simp: run)
qed

lemma sum_list_effective_expand:
  assumes "\<forall>(profile, len, demand, w)\<in>set parts. 0 \<le> demand"
  shows "(\<Sum>it\<leftarrow>expand_items parts. effective_length cut_kerf it)
         = real_of_int (effective_usage_mm parts)
             + cut_kerf * real_of_int (\<Sum>(profile, len, demand, w)\<leftarrow>parts. demand)"
  using assms
proof (induction parts rule: expand_items.induct)
  case 1
  show ?case by (simp add: effective_usage_mm_def)
next
  case (2 profile len demand w parts)
  then have "0 \<le> demand" by simp
  with 2 show ?case
    by (simp add: effective_usage_mm_def sum_list_replicate effective_length_def algebra_simps)
qed

lemma sum_list_used_length:
  "(\<Sum>b\<leftarrow>bins. used_length cut_kerf b) = (\<Sum>it\<leftarrow>all_cuts bins. effective_length cut_kerf it)"
  by (induction bins) (simp_all add: all_cuts_def used_length_def)

lemma sum_list_remaining:
  assumes "\<forall>b\<in>set bins. remaining b = real_of_int stock_length - used_length cut_kerf b"
  shows "(\<Sum>b\<leftarrow>bins. remaining b)
         = real (length bins) * real_of_int stock_length - (\<Sum>b\<leftarrow>bins. used_length cut_kerf b)"
  using assms by (induction bins) (simp_all add: algebra_simps)

text \<open>
  The waste of the report agrees with the packer: with non-negative quantities it is the
  sum of the remaining capacities of the bins the packer returns.
\<close>

lemma waste_mm_eq_sum_remaining:
  assumes "\<forall>(profile, len, demand, w)\<in>set parts. 0 \<le> demand"
  shows "waste_mm parts (best_fit_cutting_stock parts stock_length cut_kerf) stock_length cut_kerf
         = (\<Sum>b\<leftarrow>best_fit_cutting_stock parts stock_length cut_kerf. remaining b)"
proof -
  let ?bins = "best_fit_cutting_stock parts stock_length cut_kerf"
  have "\<forall>b\<in>set ?bins. remaining b = real_of_int stock_length - used_length cut_kerf b"
    by (auto dest: best_fit_cutting_stock_ok simp: bin_ok_def)
  from sum_list_remaining [OF this]
  have "(\<Sum>b\<leftarrow>?bins. remaining b)
        = real (length ?bins) * real_of_int stock_length
            - (\<Sum>it\<leftarrow>all_cuts ?bins. effective_length cut_kerf it)"
    by (simp only: sum_list_used_length)
  also have "(\<Sum>it\<leftarrow>all_cuts ?bins. effective_length cut_kerf it)
             = sum_mset (image_mset (effective_length cut_kerf) (mset (all_cuts ?bins)))"
    by (simp flip: sum_mset_sum_list)
  also have "\<dots> = (\<Sum>it\<leftarrow>expand_items parts. effective_length cut_kerf it)"
    by (simp only: mset_all_cuts_best_fit) (simp flip: sum_mset_sum_list)
  finally show ?thesis
    by (simp add: sum_list_effective_expand [OF assms] waste_mm_def total_stock_consumed_mm_def)
qed

text \<open>
  Claim C7 (weight propagation): the weight per metre of the report is that of the first
  part; when it is positive, the three weight figures are the consumed stock, the
  effective usage and the waste, in metres, multiplied by it (2 kg for one bin of
  1000 mm at 2 kg/m); otherwise the three weight figures are zero.
\<close>

theorem weight_propagation:
  "\<exists>row. generate_final_report ((p, len, demand, w) # rest) bins stock_length cut_kerf profile
            = Inr ([row], final_headers)
      \<and> weight_per_m row = w
      \<and> total_stock_consumed_m row = real_of_int (int (length bins) * stock_length) / 1000
      \<and> effective_usage_m row = real_of_int (effective_usage_mm ((p, len, demand, w) # rest)) / 1000
      \<and> waste_m row = waste_mm ((p, len, demand, w) # rest) bins stock_length cut_kerf / 1000
      \<and> (0 < w \<longrightarrow> total_order_weight_kg row = total_stock_consumed_m row * w
                    \<and> effective_weight_kg row = effective_usage_m row * w
                    \<and> waste_weight_kg row = waste_m row * w)
      \<and> (\<not> 0 < w \<longrightarrow> total_order_weight_kg row = 0 \<and> effective_weight_kg row = 0
                    \<and> waste_weight_kg row = 0)
      \<and> (w = 2 \<and> stock_length = 1000 \<and> length bins = 1 \<longrightarrow> total_order_weight_kg row = 2)"
  unfolding generate_final_report_Cons
  by (simp add: total_stock_consumed_mm_def)

theorem weight_propagation_witness:
  "(0::real) < 2
   \<and> length (best_fit_cutting_stock [(''A'', 400, 2, 2)] 1000 0) = 1
   \<and> (\<exists>row. generate_final_report [(''A'', 400, 2, 2)]
                (best_fit_cutting_stock [(''A'', 400, 2, 2)] 1000 0) 1000 0 None
              = Inr ([row], final_headers)
          \<and> weight_per_m row = 2 \<and> total_stock_consumed_m row = 1
          \<and> total_order_weight_kg row = 2
          \<and> effective_weight_kg row = 8 / 5 \<and> waste_weight_kg row = 2 / 5)
   \<and> \<not> (0::real) < 0
   \<and> (\<exists>row. generate_final_report [(''A'', 400, 2, 0)]
                (best_fit_cutting_stock [(''A'', 400, 2, 0)] 1000 0) 1000 0 None
              = Inr ([row], final_headers)
          \<and> weight_per_m row = 0
          \<and> total_order_weight_kg row = 0
          \<and> effective_weight_kg row = 0 \<and> waste_weight_kg row = 0)"
proof -
  have run2: "best_fit_cutting_stock [(''A'', 400, 2, 2)] 1000 0
             = [\<lparr>remaining = 200, cuts = [(''A'', 400), (''A'', 400)]\<rparr>]"
    by code_simp
  have run0: "best_fit_cutting_stock [(''A'', 400, 2, 0)] 1000 0
             = [\<lparr>remaining = 200, cuts = [(''A'', 400), (''A'', 400)]\<rparr>]"
    by code_simp
  from weight_propagation [of "''A''" 400 2 2 "[]"
      "best_fit_cutting_stock [(''A'', 400, 2, 2)] 1000 0" 1000 0 None]
  have first: "\<exists>row. generate_final_report [(''A'', 400, 2, 2)]
                (best_fit_cutting_stock [(''A'', 400, 2, 2)] 1000 0) 1000 0 None
              = Inr ([row], final_headers)
          \<and> weight_per_m row = 2 \<and> total_stock_consumed_m row = 1
          \<and> total_order_weight_kg row = 2
          \<and> effective_weight_kg row = 8 / 5 \<and> waste_weight_kg row = 2 / 5"
    by (auto simp: run2 effective_usage_mm_def waste_mm_def total_stock_consumed_mm_def)
  from weight_propagation [of "''A''" 400 2 0 "[]"
      "best_fit_cutting_stock [(''A'', 400, 2, 0)] 1000 0" 1000 0 None]
  have second: "\<exists>row. generate_final_report [(''A'', 400, 2, 0)]
                (best_fit_cutting_stock [(''A'', 400, 2, 0)] 1000 0) 1000 0 None
              = Inr ([row], final_headers)
          \<and> weight_per_m row = 0
          \<and> total_order_weight_kg row = 0
          \<and> effective_weight_kg row = 0 \<and> waste_weight_kg row = 0"
    by (auto simp: run0)
  from first second show ?thesis by (simp add: run2)
qed

text \<open>
  Claim C10 (non-empty group): the report of an empty parts list fails with
  \<^verbatim>\<open>IndexError\<close>, no zeroed row is returned; every non-empty parts list gives a row.
\<close>

theorem final_report_needs_parts:
  "generate_final_report [] bins stock_length cut_kerf profile = Inl IndexError
   \<and> (generate_final_report parts bins stock_length cut_kerf profile = Inl IndexError) = (parts = [])
   \<and> (\<exists>rows. generate_final_report (part0 # rest) bins stock_length cut_kerf profile = Inr rows)"
proof -
  obtain p len demand w where part0: "part0 = (p, len, demand, w)"
    by (cases part0) auto
  have cons: "\<exists>rows. generate_final_report (part0 # rest) bins stock_length cut_kerf profile = Inr rows"
    unfolding part0 generate_final_report_Cons by simp
  have "(generate_final_report parts bins stock_length cut_kerf profile = Inl IndexError) = (parts = [])"
  proof (cases parts)
    case Nil
    then show ?thesis by (simp add: generate_final_report_Nil)
  next
    case (Cons a list)
    obtain p len demand w where "a = (p, len, demand, w)" by (cases a) auto
    with Cons show ?thesis by (simp add: generate_final_report_Cons)
  qed
  with cons show ?thesis by (simp add: generate_final_report_Nil)
qed

end
